theory Spec2Isabelle
  imports Complex_Main "HOL-Library.Word"
begin

section \<open>Data model of UNtoSO3.h and UNtoU3.h\<close>

text \<open>
  Both headers refuse to compile unless the precalculation is disabled
  (\<^verbatim>\<open>#ifndef UNTOSO3_DISABLE_PRECALC #error\<close>), so the model is the code with
  \<^verbatim>\<open>*_DISABLE_PRECALC\<close> defined, tail call elimination enabled (the default) and the
  serial path of \<^verbatim>\<open>generate*Weights\<close>.

  Machine integers: a Gelfand row is \<^verbatim>\<open>std::array<uint16_t, 5>\<close>, a multiplicity is
  \<^verbatim>\<open>uint32_t\<close>, a U(3) label is \<^verbatim>\<open>uint32_t\<close>, the entries of \<^verbatim>\<open>m_\<close> are
  \<^verbatim>\<open>int8_t\<close>; these are words. \<^verbatim>\<open>size_t\<close> is taken to be 64 bits wide. An SO(3)
  weight is \<^verbatim>\<open>int32_t\<close>; it is modelled as \<open>int\<close>.
\<close>

datatype error = OutOfRange | AssertionFailed | InvalidArgument

type_synonym GRT = "16 word"
type_synonym GelfandRow = "GRT \<times> GRT \<times> GRT \<times> GRT \<times> GRT"
type_synonym U = "32 word"
type_synonym SO3Weight = int
type_synonym U3Weight = "32 word \<times> 32 word \<times> 32 word"
type_synonym SO3MultMap = "SO3Weight \<rightharpoonup> U"
type_synonym U3MultMap = "U3Weight \<rightharpoonup> U"

text \<open>\<^verbatim>\<open>mult_.find(k)\<close> followed by \<^verbatim>\<open>(it == mult_.end()) ? 0 : it->second\<close>.\<close>

definition find_or_0 :: "('k \<rightharpoonup> U) \<Rightarrow> 'k \<Rightarrow> U" where
  "find_or_0 M k = (case M k of None \<Rightarrow> 0 | Some c \<Rightarrow> c)"

text \<open>\<^verbatim>\<open>mult_[pp] += 1\<close>: \<^verbatim>\<open>operator[]\<close> inserts 0 for an absent key.\<close>

definition emit :: "('k \<rightharpoonup> U) \<Rightarrow> 'k \<Rightarrow> ('k \<rightharpoonup> U)" where
  "emit M k = M(k \<mapsto> find_or_0 M k + 1)"

subsection \<open>Quanta tables\<close>

text \<open>
  \<^verbatim>\<open>UNtoSO3::generateM(int l)\<close>: \<^verbatim>\<open>for (int m = -l; m <= l; m++) m_.push_back(m)\<close>,
  each \<open>m\<close> stored as \<^verbatim>\<open>int8_t\<close>.
\<close>

function generateM_loop :: "int \<Rightarrow> int \<Rightarrow> 8 word list \<Rightarrow> 8 word list" where
  "generateM_loop l m v =
     (if m \<le> l then generateM_loop l (m + 1) (v @ [word_of_int m]) else v)"
  by pat_completeness auto
termination
  by (relation "measure (\<lambda>(l, m, v). nat (l + 1 - m))") auto

definition generateM :: "int \<Rightarrow> 8 word list" where
  "generateM l = generateM_loop l (- l) []"

text \<open>
  \<^verbatim>\<open>UNtoU3::generateXYZ(int n)\<close>. The table \<^verbatim>\<open>xyz_\<close> is an array of three vectors,
  indexed by \<^verbatim>\<open>NZ = 0\<close>, \<^verbatim>\<open>NX = 1\<close>, \<^verbatim>\<open>NY = 2\<close>.
\<close>

type_synonym XYZ = "32 word list \<times> 32 word list \<times> 32 word list"

function xyz_inner :: "int \<Rightarrow> 32 word \<Rightarrow> int \<Rightarrow> XYZ \<Rightarrow> XYZ" where
  "xyz_inner n nz nx (vz, vx, vy) =
     (if nx \<ge> 0
      then xyz_inner n nz (nx - 1)
             (vz @ [nz], vx @ [word_of_int nx], vy @ [word_of_int n - nz - word_of_int nx])
      else (vz, vx, vy))"
  by pat_completeness auto
termination
  by (relation "measure (\<lambda>(n, nz, nx, t). nat (nx + 1))") auto

function xyz_outer :: "int \<Rightarrow> int \<Rightarrow> XYZ \<Rightarrow> XYZ" where
  "xyz_outer n k t =
     (if k \<le> n then xyz_outer n (k + 1) (xyz_inner n (word_of_int (n - k)) k t) else t)"
  by pat_completeness auto
termination
  by (relation "measure (\<lambda>(n, k, t). nat (n + 1 - k))") auto

definition generateXYZ :: "int \<Rightarrow> XYZ" where
  "generateXYZ n = xyz_outer n 0 ([], [], [])"

text \<open>The order of section 4.1 of the specification, written as the specification writes it.\<close>

definition spec_xyz_order :: "int \<Rightarrow> (int \<times> int \<times> int) list" where
  "spec_xyz_order n =
     concat (map (\<lambda>k. map (\<lambda>nx. (n - k, nx, n - (n - k) - nx)) (rev [0..k])) [0..n])"

definition xyz_triples :: "XYZ \<Rightarrow> (32 word \<times> 32 word \<times> 32 word) list" where
  "xyz_triples t = (case t of (vz, vx, vy) \<Rightarrow> zip vz (zip vx vy))"

subsection \<open>Level dimensionality\<close>

text \<open>\<^verbatim>\<open>UNtoSO3::getLevelDimensionality\<close>; a failed \<^verbatim>\<open>assert\<close> is the error value.\<close>

definition SO3_getLevelDimensionality :: "SO3MultMap \<Rightarrow> SO3Weight \<Rightarrow> error + U" where
  "SO3_getLevelDimensionality mult l =
     (if l < 0 then Inr 0
      else (case mult l of
              None \<Rightarrow> Inl AssertionFailed
            | Some c \<Rightarrow> Inr (c - find_or_0 mult (l + 1))))"

text \<open>\<^verbatim>\<open>UNtoU3::getLevelDimensionality\<close>; the updates of \<^verbatim>\<open>mult\<close> in the order of the code.\<close>

definition U3_getLevelDimensionality :: "U3MultMap \<Rightarrow> U3Weight \<Rightarrow> error + U" where
  "U3_getLevelDimensionality mult labels =
     (case labels of (f1, f2, f3) \<Rightarrow>
        if f1 < f2 \<or> f2 < f3 then Inr 0
        else (case mult (f1, f2, f3) of
                None \<Rightarrow> Inl AssertionFailed
              | Some c \<Rightarrow>
                  Inr (c + find_or_0 mult (f1 + 1, f2 + 1, f3 - 2)
                         + find_or_0 mult (f1 + 2, f2 - 1, f3 - 1)
                         - find_or_0 mult (f1 + 2, f2, f3 - 2)
                         - find_or_0 mult (f1 + 1, f2 - 1, f3)
                         - find_or_0 mult (f1, f2 + 1, f3 - 1))))"

subsection \<open>The recursion over Gelfand pattern rows\<close>

text \<open>
  \<^verbatim>\<open>generateSO3WeightsRec\<close> and \<^verbatim>\<open>generateU3WeightsRec\<close> are the same text up to the
  arithmetic of the weight: the SO(3) variant adds \<^verbatim>\<open>k * m_[N]\<close> to an integer, the U(3)
  variant adds \<^verbatim>\<open>k * xyz_[i][N]\<close> to each of three components. The control graph is
  modelled once, over a table lookup \<open>lk\<close> (an index past the end of the vector is the
  error \<open>OutOfRange\<close>) and an operation \<open>add p k q\<close> for \<^verbatim>\<open>p + k * q\<close>.

  \<^verbatim>\<open>size_t N = n4 + n3 + n2 + n1 + n0 - 1\<close>: the sum is formed in \<^verbatim>\<open>int\<close> and converted.
\<close>

definition row_N :: "GelfandRow \<Rightarrow> nat" where
  "row_N row = (case row of (n4, n3, n2, n1, n0) \<Rightarrow>
     unat (word_of_int (uint n4 + uint n3 + uint n2 + uint n1 + uint n0 - 1) :: 64 word))"

fun row_sum :: "GelfandRow \<Rightarrow> nat" where
  "row_sum (n4, n3, n2, n1, n0) = unat n4 + unat n3 + unat n2 + unat n1 + unat n0"

text \<open>
  The state of one pass through the loop body: the row and the partial weight (both
  mutated in place by the tail call elimination), the recursive calls made so far, in
  order, and a log of the in-place drops that ran (the multiplier of the group dropped:
  4, 3, 2, 1 or 0). Nothing reads the log; it is there to state what one pass does.
\<close>

record 'w iter =
  gpr :: GelfandRow
  pp :: 'w
  calls :: "(GelfandRow \<times> 'w) list"
  drops :: "nat list"

text \<open>
  The recursive calls of the four blocks, each with the multiplier of the table entry
  in its second argument. \<^verbatim>\<open>(GRT)(n + 1)\<close> and \<^verbatim>\<open>(GRT)(n - 1)\<close> are 16-bit.
\<close>

definition children4 :: "GelfandRow \<Rightarrow> (GelfandRow \<times> nat) list" where
  "children4 row = (case row of (n4, n3, n2, n1, n0) \<Rightarrow>
     [((n4 - 1, n3, n2, n1, n0), 4)]
     @ (if n2 > 0
        then [((n4 - 1, n3 + 1, n2 - 1, n1, n0), 3)]
           @ (if n0 > 0 then [((n4 - 1, n3 + 1, n2 - 1, n1 + 1, n0 - 1), 2)] else [])
        else [])
     @ (if n1 > 0
        then [((n4 - 1, n3 + 1, n2, n1 - 1, n0), 2),
              ((n4 - 1, n3, n2 + 1, n1 - 1, n0), 3)]
        else [])
     @ (if n0 > 0
        then [((n4 - 1, n3 + 1, n2, n1, n0 - 1), 1),
              ((n4 - 1, n3, n2 + 1, n1, n0 - 1), 2),
              ((n4 - 1, n3, n2, n1 + 1, n0 - 1), 3)]
        else []))"

definition children3 :: "GelfandRow \<Rightarrow> (GelfandRow \<times> nat) list" where
  "children3 row = (case row of (n4, n3, n2, n1, n0) \<Rightarrow>
     [((n4, n3 - 1, n2, n1, n0), 3)]
     @ (if n1 > 0 then [((n4, n3 - 1, n2 + 1, n1 - 1, n0), 2)] else [])
     @ (if n0 > 0
        then [((n4, n3 - 1, n2 + 1, n1, n0 - 1), 1),
              ((n4, n3 - 1, n2, n1 + 1, n0 - 1), 2)]
        else []))"

definition children2 :: "GelfandRow \<Rightarrow> (GelfandRow \<times> nat) list" where
  "children2 row = (case row of (n4, n3, n2, n1, n0) \<Rightarrow>
     [((n4, n3, n2 - 1, n1, n0), 2)]
     @ (if n0 > 0 then [((n4, n3, n2 - 1, n1 + 1, n0 - 1), 1)] else []))"

definition children1 :: "GelfandRow \<Rightarrow> (GelfandRow \<times> nat) list" where
  "children1 row = (case row of (n4, n3, n2, n1, n0) \<Rightarrow>
     [((n4, n3, n2, n1 - 1, n0), 1)])"

text \<open>A block either makes its recursive calls, with the current partial weight, or drops in place.\<close>

definition spawn ::
  "('w \<Rightarrow> nat \<Rightarrow> 'q \<Rightarrow> 'w) \<Rightarrow> 'q \<Rightarrow> (GelfandRow \<times> nat) list \<Rightarrow> 'w iter \<Rightarrow> 'w iter" where
  "spawn add q cs s = s\<lparr>calls := calls s @ map (\<lambda>c. (fst c, add (pp s) (snd c) q)) cs\<rparr>"

definition drop_in_place ::
  "('w \<Rightarrow> nat \<Rightarrow> 'q \<Rightarrow> 'w) \<Rightarrow> 'q \<Rightarrow> nat \<Rightarrow> GelfandRow \<Rightarrow> 'w iter \<Rightarrow> 'w iter" where
  "drop_in_place add q k row' s =
     s\<lparr>gpr := row', pp := add (pp s) k q, drops := drops s @ [k]\<rparr>"

definition blk4 ::
  "(nat \<Rightarrow> error + 'q) \<Rightarrow> ('w \<Rightarrow> nat \<Rightarrow> 'q \<Rightarrow> 'w) \<Rightarrow> nat \<Rightarrow> 'w iter \<Rightarrow> error + 'w iter" where
  "blk4 lk add N s = (case gpr s of (n4, n3, n2, n1, n0) \<Rightarrow>
     if n4 > 0 then
       (case lk N of Inl e \<Rightarrow> Inl e | Inr q \<Rightarrow>
          if n3 > 0 \<or> n2 > 0 \<or> n1 > 0 \<or> n0 > 0
          then Inr (spawn add q (children4 (gpr s)) s)
          else Inr (drop_in_place add q 4 (n4 - 1, n3, n2, n1, n0) s))
     else Inr s)"

definition blk3 ::
  "(nat \<Rightarrow> error + 'q) \<Rightarrow> ('w \<Rightarrow> nat \<Rightarrow> 'q \<Rightarrow> 'w) \<Rightarrow> nat \<Rightarrow> 'w iter \<Rightarrow> error + 'w iter" where
  "blk3 lk add N s = (case gpr s of (n4, n3, n2, n1, n0) \<Rightarrow>
     if n3 > 0 then
       (case lk N of Inl e \<Rightarrow> Inl e | Inr q \<Rightarrow>
          if n2 > 0 \<or> n1 > 0 \<or> n0 > 0
          then Inr (spawn add q (children3 (gpr s)) s)
          else Inr (drop_in_place add q 3 (n4, n3 - 1, n2, n1, n0) s))
     else Inr s)"

definition blk2 ::
  "(nat \<Rightarrow> error + 'q) \<Rightarrow> ('w \<Rightarrow> nat \<Rightarrow> 'q \<Rightarrow> 'w) \<Rightarrow> nat \<Rightarrow> 'w iter \<Rightarrow> error + 'w iter" where
  "blk2 lk add N s = (case gpr s of (n4, n3, n2, n1, n0) \<Rightarrow>
     if n2 > 0 then
       (case lk N of Inl e \<Rightarrow> Inl e | Inr q \<Rightarrow>
          if n1 > 0 \<or> n0 > 0
          then Inr (spawn add q (children2 (gpr s)) s)
          else Inr (drop_in_place add q 2 (n4, n3, n2 - 1, n1, n0) s))
     else Inr s)"

definition blk1 ::
  "(nat \<Rightarrow> error + 'q) \<Rightarrow> ('w \<Rightarrow> nat \<Rightarrow> 'q \<Rightarrow> 'w) \<Rightarrow> nat \<Rightarrow> 'w iter \<Rightarrow> error + 'w iter" where
  "blk1 lk add N s = (case gpr s of (n4, n3, n2, n1, n0) \<Rightarrow>
     if n1 > 0 then
       (case lk N of Inl e \<Rightarrow> Inl e | Inr q \<Rightarrow>
          if n0 > 0
          then Inr (spawn add q (children1 (gpr s)) s)
          else Inr (drop_in_place add q 1 (n4, n3, n2, n1 - 1, n0) s))
     else Inr s)"

text \<open>The last block, \<^verbatim>\<open>if (n0 > 0) n0--\<close>, reads no table entry.\<close>

definition blk0 :: "'w iter \<Rightarrow> error + 'w iter" where
  "blk0 s = (case gpr s of (n4, n3, n2, n1, n0) \<Rightarrow>
     if n0 > 0 then Inr (s\<lparr>gpr := (n4, n3, n2, n1, n0 - 1), drops := drops s @ [0]\<rparr>)
     else Inr s)"

definition then_do :: "error + 'a \<Rightarrow> ('a \<Rightarrow> error + 'b) \<Rightarrow> error + 'b" where
  "then_do x f = (case x of Inl e \<Rightarrow> Inl e | Inr v \<Rightarrow> f v)"

text \<open>One pass through the body of the \<^verbatim>\<open>while\<close> loop, before \<^verbatim>\<open>N--\<close>.\<close>

definition loop_body ::
  "(nat \<Rightarrow> error + 'q) \<Rightarrow> ('w \<Rightarrow> nat \<Rightarrow> 'q \<Rightarrow> 'w) \<Rightarrow> nat \<Rightarrow> GelfandRow \<Rightarrow> 'w \<Rightarrow> error + 'w iter" where
  "loop_body lk add N row p =
     then_do (then_do (then_do (then_do
       (blk4 lk add N \<lparr>gpr = row, pp = p, calls = [], drops = []\<rparr>)
       (blk3 lk add N)) (blk2 lk add N)) (blk1 lk add N)) blk0"

fun collect :: "(error + 'a list) list \<Rightarrow> error + 'a list" where
  "collect [] = Inr []"
| "collect (r # rs) =
     (case r of Inl e \<Rightarrow> Inl e
      | Inr xs \<Rightarrow> (case collect rs of Inl e \<Rightarrow> Inl e | Inr ys \<Rightarrow> Inr (xs @ ys)))"

text \<open>
  The loop of the recursion, from a given \<open>N\<close>. The only effect of the code is
  \<^verbatim>\<open>mult_[pp] += 1\<close> at the end of each call; the model returns the weights so emitted,
  in the order of the code: the calls of one pass, then the rest of the loop.
  With the precalculation disabled the threshold is 0 and the base case is
  \<^verbatim>\<open>pp += (4 * n4 + 3 * n3 + 2 * n2 + n1) * q[0]\<close>.
\<close>

function rec_loop ::
  "(nat \<Rightarrow> error + 'q) \<Rightarrow> ('w \<Rightarrow> nat \<Rightarrow> 'q \<Rightarrow> 'w) \<Rightarrow> nat \<Rightarrow> GelfandRow \<Rightarrow> 'w \<Rightarrow> error + 'w list" where
  "rec_loop lk add N row p =
     (if N > 0 then
        (case loop_body lk add N row p of
           Inl e \<Rightarrow> Inl e
         | Inr s \<Rightarrow>
             (case collect (map (\<lambda>c. rec_loop lk add (row_N (fst c)) (fst c) (snd c)) (calls s)) of
                Inl e \<Rightarrow> Inl e
              | Inr ws \<Rightarrow>
                  (case rec_loop lk add (N - 1) (gpr s) (pp s) of
                     Inl e \<Rightarrow> Inl e
                   | Inr ws' \<Rightarrow> Inr (ws @ ws'))))
      else
        (case row of (n4, n3, n2, n1, n0) \<Rightarrow>
           (case lk 0 of
              Inl e \<Rightarrow> Inl e
            | Inr q \<Rightarrow> Inr [add p (4 * unat n4 + 3 * unat n3 + 2 * unat n2 + unat n1) q])))"
  by pat_completeness auto

subsection \<open>The two instances\<close>

text \<open>\<^verbatim>\<open>v[i]\<close> on a \<^verbatim>\<open>std::vector\<close>: undefined past the end, here an error value.\<close>

definition vec_at :: "'a list \<Rightarrow> nat \<Rightarrow> error + 'a" where
  "vec_at v i = (if i < length v then Inr (v ! i) else Inl OutOfRange)"

text \<open>SO(3): \<^verbatim>\<open>pp + k * m_[N]\<close>, the \<^verbatim>\<open>int8_t\<close> entry promoted to \<^verbatim>\<open>int\<close>.\<close>

definition SO3_q :: "8 word list \<Rightarrow> nat \<Rightarrow> error + int" where
  "SO3_q m N = then_do (vec_at m N) (\<lambda>x. Inr (sint x))"

definition SO3_add :: "SO3Weight \<Rightarrow> nat \<Rightarrow> int \<Rightarrow> SO3Weight" where
  "SO3_add p k q = p + int k * q"

definition generateSO3WeightsRec ::
  "8 word list \<Rightarrow> GelfandRow \<Rightarrow> SO3Weight \<Rightarrow> error + SO3Weight list" where
  "generateSO3WeightsRec m row p = rec_loop (SO3_q m) SO3_add (row_N row) row p"

text \<open>
  U(3): \<^verbatim>\<open>{ pp[0] + k * xyz_[0][N], pp[1] + k * xyz_[1][N], pp[2] + k * xyz_[2][N] }\<close>
  in \<^verbatim>\<open>uint32_t\<close>.
\<close>

definition U3_q :: "XYZ \<Rightarrow> nat \<Rightarrow> error + U3Weight" where
  "U3_q xyz N = (case xyz of (vz, vx, vy) \<Rightarrow>
     then_do (vec_at vz N) (\<lambda>z. then_do (vec_at vx N) (\<lambda>x. then_do (vec_at vy N) (\<lambda>y. Inr (z, x, y)))))"

definition U3_add :: "U3Weight \<Rightarrow> nat \<Rightarrow> U3Weight \<Rightarrow> U3Weight" where
  "U3_add p k q = (case p of (p0, p1, p2) \<Rightarrow> case q of (z, x, y) \<Rightarrow>
     (p0 + of_nat k * z, p1 + of_nat k * x, p2 + of_nat k * y))"

definition generateU3WeightsRec ::
  "XYZ \<Rightarrow> GelfandRow \<Rightarrow> U3Weight \<Rightarrow> error + U3Weight list" where
  "generateU3WeightsRec xyz row p = rec_loop (U3_q xyz) U3_add (row_N row) row p"

text \<open>
  \<^verbatim>\<open>generateSO3Weights\<close> and \<^verbatim>\<open>generateU3Weights\<close>, serial path: \<^verbatim>\<open>mult_.clear()\<close>,
  then the recursion from partial weight zero. The argument \<open>mult\<close> is the table before
  the call, the result the table after it.
\<close>

definition generateSO3Weights ::
  "8 word list \<Rightarrow> SO3MultMap \<Rightarrow> GelfandRow \<Rightarrow> error + SO3MultMap" where
  "generateSO3Weights m mult row =
     then_do (generateSO3WeightsRec m row 0) (\<lambda>ws. Inr (foldl emit Map.empty ws))"

definition generateU3Weights ::
  "XYZ \<Rightarrow> U3MultMap \<Rightarrow> GelfandRow \<Rightarrow> error + U3MultMap" where
  "generateU3Weights xyz mult row =
     then_do (generateU3WeightsRec xyz row (0, 0, 0)) (\<lambda>ws. Inr (foldl emit Map.empty ws))"

subsection \<open>The test driver test\_input\_SO3.cpp\<close>

text \<open>\<^verbatim>\<open>unsigned long dim(const SO3Weight & l) { return 2*l+1; }\<close>\<close>

definition SO3_dim :: "SO3Weight \<Rightarrow> 64 word" where
  "SO3_dim l = word_of_int (2 * l + 1)"

text \<open>
  The loop over \<^verbatim>\<open>gen.multMap()\<close>. An unordered map is visited in an unspecified order;
  the model visits the keys in ascending order.
\<close>

fun sum_loop :: "SO3MultMap \<Rightarrow> SO3Weight list \<Rightarrow> 64 word \<Rightarrow> error + 64 word" where
  "sum_loop mult [] acc = Inr acc"
| "sum_loop mult (weight # ws) acc =
     (case SO3_getLevelDimensionality mult weight of
        Inl e \<Rightarrow> Inl e
      | Inr D_l \<Rightarrow>
          sum_loop mult ws (if D_l \<noteq> 0 then acc + ucast D_l * SO3_dim weight else acc))"

text \<open>
  \<^verbatim>\<open>main\<close>: \<open>l\<close> is read as \<^verbatim>\<open>unsigned long\<close>, the counts as \<^verbatim>\<open>unsigned short\<close>; the
  result is the number printed after \<^verbatim>\<open>SO(3) irreps total dim =\<close>, or the exception.
\<close>

definition main :: "64 word \<Rightarrow> GRT \<Rightarrow> GRT \<Rightarrow> GRT \<Rightarrow> GRT \<Rightarrow> GRT \<Rightarrow> error + 64 word" where
  "main l n4 n3 n2 n1 n0 =
     (if word_of_int (uint n4 + uint n3 + uint n2 + uint n1 + uint n0) \<noteq> 2 * l + 1
      then Inl InvalidArgument
      else then_do
             (generateSO3Weights (generateM (sint (ucast l :: 32 word))) Map.empty (n4, n3, n2, n1, n0))
             (\<lambda>mult. sum_loop mult (sorted_list_of_set (dom mult)) 0))"

text \<open>
  The analytic dimension of a U(N) irrep, \<^verbatim>\<open>dim(const T & irrep)\<close> of the driver (compiled
  with \<^verbatim>\<open>HAVE_BOOST\<close>), over exact rationals, and the vector \<open>f\<close> that \<^verbatim>\<open>main\<close> builds
  from the counts.
\<close>

definition UN_dim :: "nat list \<Rightarrow> rat" where
  "UN_dim irrep =
     foldl (\<lambda>result l.
              foldl (\<lambda>result k.
                       result * (of_nat (irrep ! (k - 1) - irrep ! (l - 1) + l - k) / of_nat (l - k)))
                    result [1..<l])
           1 [2..<Suc (length irrep)]"

definition irrep_of :: "GelfandRow \<Rightarrow> nat list" where
  "irrep_of row = (case row of (n4, n3, n2, n1, n0) \<Rightarrow>
     replicate (unat n4) 4 @ replicate (unat n3) 3 @ replicate (unat n2) 2
       @ replicate (unat n1) 1 @ replicate (unat n0) 0)"

subsection \<open>Auxiliary notions for the statements\<close>

text \<open>The integers of the specification's triples, as the \<^verbatim>\<open>uint32_t\<close> the table stores.\<close>

definition word3 :: "int \<times> int \<times> int \<Rightarrow> U3Weight" where
  "word3 t = (case t of (a, b, c) \<Rightarrow> (word_of_int a, word_of_int b, word_of_int c))"

text \<open>What one run of the inner loop of \<^verbatim>\<open>generateXYZ\<close> appends, for a given \<open>k\<close>.\<close>

definition row_of :: "int \<Rightarrow> int \<Rightarrow> (32 word \<times> 32 word \<times> 32 word) list" where
  "row_of n k = map (\<lambda>nx. (word_of_int (n - k), word_of_int nx,
                      word_of_int n - word_of_int (n - k) - word_of_int nx)) (rev [0..k])"

text \<open>No block lets the row grow, and every call is on a row of smaller sum.\<close>

definition shrinks :: "nat \<Rightarrow> 'w iter \<Rightarrow> bool" where
  "shrinks K s = (row_sum (gpr s) \<le> K \<and> (\<forall>c \<in> set (calls s). row_sum (fst c) < K))"

text \<open>
  The rows on which the loop, entered with a given \<open>N\<close>, reads the table (of length \<open>L\<close>)
  inside its bounds: the row has \<open>N + 1\<close> entries and \<open>N\<close> is an index, or the row is
  empty (then only index 0 is read, at the end).
\<close>

definition safe :: "nat \<Rightarrow> nat \<Rightarrow> GelfandRow \<Rightarrow> bool" where
  "safe L N row = ((row_sum row = Suc N \<and> N < L) \<or> (row_sum row = 0 \<and> 0 < L))"

section \<open>Termination of the recursion\<close>

lemma u16_dec: "0 < (n::16 word) \<Longrightarrow> Suc (unat (n - 1)) = unat n"
  by (metis Suc_pred' unat_minus_one unsigned_eq_0_iff word_greater_zero_iff word_gt_0_no zero_less_iff_neq_zero unat_gt_0)

lemma u16_inc: "unat (n + 1 :: 16 word) \<le> Suc (unat n)"
  by (simp add: unat_word_ariths)

lemma children4_sum:
  assumes "0 < n4" "c \<in> set (children4 (n4, n3, n2, n1, n0))"
  shows "row_sum (fst c) < row_sum (n4, n3, n2, n1, n0)"
  using assms u16_dec[of n4] u16_dec[of n2] u16_dec[of n1] u16_dec[of n0]
      u16_inc[of n3] u16_inc[of n2] u16_inc[of n1]
  by (auto simp: children4_def split: if_splits)

lemma children3_sum:
  assumes "0 < n3" "c \<in> set (children3 (n4, n3, n2, n1, n0))"
  shows "row_sum (fst c) < row_sum (n4, n3, n2, n1, n0)"
  using assms u16_dec[of n3] u16_dec[of n1] u16_dec[of n0]
      u16_inc[of n2] u16_inc[of n1]
  by (auto simp: children3_def split: if_splits)

lemma children2_sum:
  assumes "0 < n2" "c \<in> set (children2 (n4, n3, n2, n1, n0))"
  shows "row_sum (fst c) < row_sum (n4, n3, n2, n1, n0)"
  using assms u16_dec[of n2] u16_dec[of n0] u16_inc[of n1]
  by (auto simp: children2_def split: if_splits)

lemma children1_sum:
  assumes "0 < n1" "c \<in> set (children1 (n4, n3, n2, n1, n0))"
  shows "row_sum (fst c) < row_sum (n4, n3, n2, n1, n0)"
  using assms u16_dec[of n1]
  by (auto simp: children1_def split: if_splits)

lemma blk4_shrinks:
  assumes "blk4 lk add N s = Inr s'" "shrinks K s"
  shows "shrinks K s'"
proof -
  obtain n4 n3 n2 n1 n0 where g: "gpr s = (n4, n3, n2, n1, n0)"
    by (cases "gpr s") auto
  show ?thesis
    using assms g u16_dec[of n4] children4_sum[of n4 _ n3 n2 n1 n0]
    by (fastforce simp: blk4_def shrinks_def spawn_def drop_in_place_def split: sum.splits if_splits)
qed

lemma blk3_shrinks:
  assumes "blk3 lk add N s = Inr s'" "shrinks K s"
  shows "shrinks K s'"
proof -
  obtain n4 n3 n2 n1 n0 where g: "gpr s = (n4, n3, n2, n1, n0)"
    by (cases "gpr s") auto
  show ?thesis
    using assms g u16_dec[of n3] children3_sum[of n3 _ n4 n2 n1 n0]
    by (fastforce simp: blk3_def shrinks_def spawn_def drop_in_place_def split: sum.splits if_splits)
qed

lemma blk2_shrinks:
  assumes "blk2 lk add N s = Inr s'" "shrinks K s"
  shows "shrinks K s'"
proof -
  obtain n4 n3 n2 n1 n0 where g: "gpr s = (n4, n3, n2, n1, n0)"
    by (cases "gpr s") auto
  show ?thesis
    using assms g u16_dec[of n2] children2_sum[of n2 _ n4 n3 n1 n0]
    by (fastforce simp: blk2_def shrinks_def spawn_def drop_in_place_def split: sum.splits if_splits)
qed

lemma blk1_shrinks:
  assumes "blk1 lk add N s = Inr s'" "shrinks K s"
  shows "shrinks K s'"
proof -
  obtain n4 n3 n2 n1 n0 where g: "gpr s = (n4, n3, n2, n1, n0)"
    by (cases "gpr s") auto
  show ?thesis
    using assms g u16_dec[of n1] children1_sum[of n1 _ n4 n3 n2 n0]
    by (fastforce simp: blk1_def shrinks_def spawn_def drop_in_place_def split: sum.splits if_splits)
qed

lemma blk0_shrinks:
  assumes "blk0 s = Inr s'" "shrinks K s"
  shows "shrinks K s'"
proof -
  obtain n4 n3 n2 n1 n0 where g: "gpr s = (n4, n3, n2, n1, n0)"
    by (cases "gpr s") auto
  show ?thesis
    using assms g u16_dec[of n0]
    by (fastforce simp: blk0_def shrinks_def split: sum.splits if_splits)
qed

lemma then_do_Inr: "then_do x f = Inr y \<longleftrightarrow> (\<exists>v. x = Inr v \<and> f v = Inr y)"
  by (cases x) (auto simp: then_do_def)

lemma loop_body_blocks:
  assumes "loop_body lk add N row p = Inr s"
  obtains s4 s3 s2 s1 where
    "blk4 lk add N \<lparr>gpr = row, pp = p, calls = [], drops = []\<rparr> = Inr s4"
    "blk3 lk add N s4 = Inr s3" "blk2 lk add N s3 = Inr s2"
    "blk1 lk add N s2 = Inr s1" "blk0 s1 = Inr s"
  using assms unfolding loop_body_def then_do_Inr by blast

lemma loop_body_shrinks:
  assumes "loop_body lk add N row p = Inr s"
  shows "shrinks (row_sum row) s"
proof -
  have init: "shrinks (row_sum row) \<lparr>gpr = row, pp = p, calls = [], drops = []\<rparr>"
    by (simp add: shrinks_def)
  from assms obtain s4 s3 s2 s1 where
    "blk4 lk add N \<lparr>gpr = row, pp = p, calls = [], drops = []\<rparr> = Inr s4"
    "blk3 lk add N s4 = Inr s3" "blk2 lk add N s3 = Inr s2"
    "blk1 lk add N s2 = Inr s1" "blk0 s1 = Inr s"
    by (rule loop_body_blocks)
  then show ?thesis
    using init blk4_shrinks blk3_shrinks blk2_shrinks blk1_shrinks blk0_shrinks by metis
qed

termination rec_loop
proof (relation "measures [\<lambda>(lk, add, N, row, p). row_sum row, \<lambda>(lk, add, N, row, p). N]")
  show "wf (measures [\<lambda>(lk, add, N, row, p). row_sum row, \<lambda>(lk, add, N, row, p). N])"
    by simp
next
  fix lk :: "nat \<Rightarrow> error + 'q" and add :: "'w \<Rightarrow> nat \<Rightarrow> 'q \<Rightarrow> 'w"
    and N row p s c
  assume "loop_body lk add N row p = Inr s" "c \<in> set (calls s)"
  then show "((lk, add, row_N (fst c), fst c, snd c), lk, add, N, row, p)
       \<in> measures [\<lambda>(lk, add, N, row, p). row_sum row, \<lambda>(lk, add, N, row, p). N]"
    using loop_body_shrinks[of lk add N row p s] by (cases c) (auto simp: shrinks_def)
next
  fix lk :: "nat \<Rightarrow> error + 'q" and add :: "'w \<Rightarrow> nat \<Rightarrow> 'q \<Rightarrow> 'w"
    and N row p s and ws :: "'w list"
  assume "0 < N" "loop_body lk add N row p = Inr s"
  then show "((lk, add, N - 1, gpr s, pp s), lk, add, N, row, p)
       \<in> measures [\<lambda>(lk, add, N, row, p). row_sum row, \<lambda>(lk, add, N, row, p). N]"
    using loop_body_shrinks[of lk add N row p s] by (auto simp: shrinks_def)
qed

declare rec_loop.simps [simp del]

section \<open>The quanta tables\<close>

declare xyz_inner.simps [simp del] xyz_outer.simps [simp del] generateM_loop.simps [simp del]

lemma rev_upto_step: "0 \<le> nx \<Longrightarrow> rev [0..nx] = nx # rev [0..nx - 1]"
  by (simp add: upto_rec2)

lemma xyz_inner_eq:
  "- 1 \<le> nx \<Longrightarrow>
   xyz_inner n nz nx (vz, vx, vy) =
     (vz @ map (\<lambda>x. nz) (rev [0..nx]),
      vx @ map word_of_int (rev [0..nx]),
      vy @ map (\<lambda>x. word_of_int n - nz - word_of_int x) (rev [0..nx]))"
proof (induction n nz nx "(vz, vx, vy)" arbitrary: vz vx vy rule: xyz_inner.induct)
  case (1 n nz nx vz vx vy)
  show ?case
  proof (cases "nx \<ge> 0")
    case True
    then show ?thesis
      using 1 by (subst xyz_inner.simps) (simp add: rev_upto_step)
  next
    case False
    with 1 have "nx = - 1" by simp
    then show ?thesis by (subst xyz_inner.simps) simp
  qed
qed

lemma xyz_inner_triples:
  assumes "0 \<le> k" "length vz = length vx" "length vx = length vy"
  shows "xyz_triples (xyz_inner n (word_of_int (n - k)) k (vz, vx, vy)) =
           xyz_triples (vz, vx, vy) @ row_of n k"
    and "(case xyz_inner n (word_of_int (n - k)) k (vz, vx, vy) of (a, b, c) \<Rightarrow>
            length a = length b \<and> length b = length c)"
  using assms by (simp_all add: xyz_inner_eq xyz_triples_def row_of_def zip_map_map zip_same_conv_map
      map_zip_map map_zip_map2 zip_map1 zip_map2)


lemma xyz_outer_triples:
  "0 \<le> k \<Longrightarrow> k \<le> n + 1 \<Longrightarrow> length vz = length vx \<Longrightarrow> length vx = length vy \<Longrightarrow>
   xyz_triples (xyz_outer n k (vz, vx, vy)) =
     xyz_triples (vz, vx, vy) @ concat (map (row_of n) [k..n])"
proof (induction n k "(vz, vx, vy)" arbitrary: vz vx vy rule: xyz_outer.induct)
  case (1 n k vz vx vy)
  show ?case
  proof (cases "k \<le> n")
    case True
    obtain a b c where in_eq: "xyz_inner n (word_of_int (n - k)) k (vz, vx, vy) = (a, b, c)"
      by (cases "xyz_inner n (word_of_int (n - k)) k (vz, vx, vy)") auto
    have len: "length a = length b" "length b = length c"
      using xyz_inner_triples(2)[of k vz vx vy n] 1(2,4,5) in_eq by auto
    have tr: "xyz_triples (a, b, c) = xyz_triples (vz, vx, vy) @ row_of n k"
      using xyz_inner_triples(1)[of k vz vx vy n] 1(2,4,5) in_eq by auto
    have "xyz_triples (xyz_outer n (k + 1) (a, b, c)) =
            xyz_triples (a, b, c) @ concat (map (row_of n) [k + 1..n])"
      using 1(1)[OF True in_eq] True 1(2) len by simp
    then show ?thesis
      using True in_eq tr by (subst xyz_outer.simps) (simp add: upto_rec1[of k n])
  next
    case False
    then show ?thesis by (subst xyz_outer.simps) simp
  qed
qed

lemma row_of_spec: "concat (map (row_of n) [0..n]) = map word3 (spec_xyz_order n)"
  by (simp add: spec_xyz_order_def map_concat comp_def row_of_def[abs_def] word3_def)

lemma generateXYZ_triples:
  "0 \<le> n \<Longrightarrow> xyz_triples (generateXYZ n) = map word3 (spec_xyz_order n)"
  using xyz_outer_triples[of 0 n "[]" "[]" "[]"]
  by (simp add: generateXYZ_def row_of_spec) (simp add: xyz_triples_def)

lemma xyz_outer_lengths:
  "0 \<le> k \<Longrightarrow> length vz = length vx \<Longrightarrow> length vx = length vy \<Longrightarrow>
   (case xyz_outer n k (vz, vx, vy) of (a, b, c) \<Rightarrow> length a = length b \<and> length b = length c)"
proof (induction n k "(vz, vx, vy)" arbitrary: vz vx vy rule: xyz_outer.induct)
  case (1 n k vz vx vy)
  show ?case
  proof (cases "k \<le> n")
    case True
    obtain a b c where in_eq: "xyz_inner n (word_of_int (n - k)) k (vz, vx, vy) = (a, b, c)"
      by (cases "xyz_inner n (word_of_int (n - k)) k (vz, vx, vy)") auto
    have len: "length a = length b" "length b = length c"
      using xyz_inner_triples(2)[of k vz vx vy n] 1(2,3,4) in_eq by auto
    show ?thesis
      using 1(1)[OF True in_eq] 1(2) len True in_eq by (subst xyz_outer.simps) simp
  next
    case False
    then show ?thesis using 1 by (subst xyz_outer.simps) simp
  qed
qed

lemma spec_len_aux:
  "length (concat (map (\<lambda>k. map (g k) (rev [0..k])) [0..int m])) = (m + 1) * (m + 2) div 2"
proof (induction m)
  case 0
  then show ?case by simp
next
  case (Suc m)
  have "[0..int (Suc m)] = [0..int m] @ [int m + 1]"
    by (simp add: upto_rec2)
  then show ?case using Suc by simp
qed

lemma spec_xyz_order_length:
  "0 \<le> n \<Longrightarrow> length (spec_xyz_order n) = nat ((n + 1) * (n + 2) div 2)"
  using spec_len_aux[of "\<lambda>k nx. (n - k, nx, n - (n - k) - nx)" "nat n"]
  by (simp add: spec_xyz_order_def nat_div_distrib nat_mult_distrib nat_add_distrib)

lemma spec_xyz_order_entries:
  assumes "t \<in> set (spec_xyz_order n)"
  shows "(case t of (nz, nx, ny) \<Rightarrow> 0 \<le> nz \<and> 0 \<le> nx \<and> 0 \<le> ny \<and> nz + nx + ny = n)"
  using assms by (auto simp: spec_xyz_order_def)


lemma uint_word32_of_int: "0 \<le> a \<Longrightarrow> a < 2 ^ 32 \<Longrightarrow> uint (word_of_int a :: 32 word) = a"
  by (simp add: uint_word_of_int_eq take_bit_int_eq_self)

text \<open>
  C9. For a shell \<open>n \<ge> 0\<close> (an \<^verbatim>\<open>int\<close>, so below \<open>2^31\<close>), \<^verbatim>\<open>generateXYZ(n)\<close> fills
  three vectors of length \<open>(n+1)(n+2)/2\<close>; read together, index by index, they are the
  triples \<open>(n_z, n_x, n - n_z - n_x)\<close> in the order of the specification's nested loop
  (\<open>k = 0..n\<close>, \<open>n_z = n - k\<close>, \<open>n_x\<close> from \<open>k\<close> down to 0), and at every index the three
  components add up to \<open>n\<close>.
\<close>

theorem generateXYZ_canonical_order:
  assumes "0 \<le> n" and "n < 2 ^ 31"
  shows "case generateXYZ n of (vz, vx, vy) \<Rightarrow>
           length vz = nat ((n + 1) * (n + 2) div 2)
         \<and> length vx = nat ((n + 1) * (n + 2) div 2)
         \<and> length vy = nat ((n + 1) * (n + 2) div 2)
         \<and> zip vz (zip vx vy) = map word3 (spec_xyz_order n)
         \<and> (\<forall>i < nat ((n + 1) * (n + 2) div 2).
               uint (vz ! i) + uint (vx ! i) + uint (vy ! i) = n)"
proof -
  obtain vz vx vy where g: "generateXYZ n = (vz, vx, vy)"
    by (cases "generateXYZ n") auto
  have len: "length vz = length vx" "length vx = length vy"
    using xyz_outer_lengths[of 0 "[]" "[]" "[]" n] g by (auto simp: generateXYZ_def)
  have tr: "zip vz (zip vx vy) = map word3 (spec_xyz_order n)"
    using generateXYZ_triples[OF assms(1)] g by (simp add: xyz_triples_def)
  have "length (zip vz (zip vx vy)) = nat ((n + 1) * (n + 2) div 2)"
    using tr spec_xyz_order_length[OF assms(1)] by simp
  then have lz: "length vz = nat ((n + 1) * (n + 2) div 2)"
    using len by simp
  have sums: "uint (vz ! i) + uint (vx ! i) + uint (vy ! i) = n"
    if i: "i < nat ((n + 1) * (n + 2) div 2)" for i
  proof -
    obtain a b c where t: "spec_xyz_order n ! i = (a, b, c)"
      by (cases "spec_xyz_order n ! i") auto
    have "(a, b, c) \<in> set (spec_xyz_order n)"
      using t i spec_xyz_order_length[OF assms(1)] by (metis nth_mem)
    then have rng: "0 \<le> a" "0 \<le> b" "0 \<le> c" "a + b + c = n"
      using spec_xyz_order_entries[of "(a, b, c)" n] by auto
    have "zip vz (zip vx vy) ! i = word3 (a, b, c)"
      using tr t i spec_xyz_order_length[OF assms(1)] by simp
    then have "vz ! i = word_of_int a" "vx ! i = word_of_int b" "vy ! i = word_of_int c"
      using i lz len by (simp_all add: word3_def)
    then show ?thesis
      using rng assms(2) by (simp add: uint_word32_of_int)
  qed
  show ?thesis
    using g len lz tr sums by simp
qed

theorem generateXYZ_canonical_order_witness:
  "(0::int) \<le> 1 \<and> (1::int) < 2 ^ 31
   \<and> (case generateXYZ 1 of (vz, vx, vy) \<Rightarrow>
         length vz = 3 \<and> length vx = 3 \<and> length vy = 3
       \<and> zip vz (zip vx vy) = [(1, 0, 0), (0, 1, 0), (0, 0, 1)])"
  using generateXYZ_canonical_order[of 1]
  by (simp add: spec_xyz_order_def word3_def upto.simps split: prod.splits)

section \<open>The loop body\<close>

lemmas body_defs = loop_body_def then_do_def blk4_def blk3_def blk2_def blk1_def blk0_def
  drop_in_place_def spawn_def

lemma loop_body_effect:
  assumes "lk N = Inr q"
  shows "\<exists>s. loop_body lk add N (n4, n3, n2, n1, n0) p = Inr s \<and>
           (if n0 > 0 then drops s = [0] \<and> gpr s = (n4, n3, n2, n1, n0 - 1) \<and> pp s = p
            else if n1 > 0 then drops s = [1] \<and> gpr s = (n4, n3, n2, n1 - 1, n0) \<and> pp s = add p 1 q
            else if n2 > 0 then drops s = [2] \<and> gpr s = (n4, n3, n2 - 1, n1, n0) \<and> pp s = add p 2 q
            else if n3 > 0 then drops s = [3] \<and> gpr s = (n4, n3 - 1, n2, n1, n0) \<and> pp s = add p 3 q
            else if n4 > 0 then drops s = [4] \<and> gpr s = (n4 - 1, n3, n2, n1, n0) \<and> pp s = add p 4 q
            else drops s = [] \<and> gpr s = (n4, n3, n2, n1, n0) \<and> pp s = p)"
  using assms by (simp add: body_defs)


text \<open>
  C6. One pass through the body of the loop, on any row and for any \<open>N\<close> whose table
  entry exists: exactly one in-place drop runs when the row has a nonzero group, namely
  the drop of the group that is nonzero while all lower groups are zero (the log
  \<open>drops\<close> is that one multiplier; the row loses one entry of that group and the partial
  weight gains multiplier times \<open>q[N]\<close>); the blocks of the higher nonzero groups make
  their recursive calls in the same pass. No drop runs only on the all-zero row.
\<close>

theorem loop_body_one_drop:
  assumes "lk N = Inr q"
  shows "\<exists>s. loop_body lk add N (n4, n3, n2, n1, n0) p = Inr s \<and>
           (if n0 > 0 then drops s = [0] \<and> gpr s = (n4, n3, n2, n1, n0 - 1) \<and> pp s = p
            else if n1 > 0 then drops s = [1] \<and> gpr s = (n4, n3, n2, n1 - 1, n0) \<and> pp s = add p 1 q
            else if n2 > 0 then drops s = [2] \<and> gpr s = (n4, n3, n2 - 1, n1, n0) \<and> pp s = add p 2 q
            else if n3 > 0 then drops s = [3] \<and> gpr s = (n4, n3 - 1, n2, n1, n0) \<and> pp s = add p 3 q
            else if n4 > 0 then drops s = [4] \<and> gpr s = (n4 - 1, n3, n2, n1, n0) \<and> pp s = add p 4 q
            else drops s = [] \<and> gpr s = (n4, n3, n2, n1, n0) \<and> pp s = p)"
  using assms by (simp add: body_defs)

theorem loop_body_one_drop_witness:
  "SO3_q (generateM 1) 1 = Inr 0
   \<and> (\<exists>s. loop_body (SO3_q (generateM 1)) SO3_add 1 (1, 0, 0, 0, 1) 0 = Inr s
          \<and> drops s = [0] \<and> gpr s = (1, 0, 0, 0, 0) \<and> pp s = 0)"
proof -
  have h: "SO3_q (generateM 1) 1 = Inr 0"
    by (simp add: SO3_q_def vec_at_def then_do_def generateM_def generateM_loop.simps)
  show ?thesis
    using h loop_body_one_drop[of "SO3_q (generateM 1)" 1 0 SO3_add 1 0 0 0 1 0] by simp
qed



lemma row_sum_bound: "row_sum row < 5 * 65536"
proof -
  obtain n4 n3 n2 n1 n0 where r: "row = (n4, n3, n2, n1, n0)" by (cases row) auto
  have "unat n4 < 65536" "unat n3 < 65536" "unat n2 < 65536" "unat n1 < 65536" "unat n0 < 65536"
    using unsigned_less[of n4] unsigned_less[of n3] unsigned_less[of n2] unsigned_less[of n1]
      unsigned_less[of n0] by simp_all
  then show ?thesis using r by simp
qed

lemma row_N_eq: "row_N row = (if row_sum row = 0 then 2 ^ 64 - 1 else row_sum row - 1)"
proof -
  obtain n4 n3 n2 n1 n0 where r: "row = (n4, n3, n2, n1, n0)" by (cases row) auto
  have s: "uint n4 + uint n3 + uint n2 + uint n1 + uint n0 = int (row_sum (n4, n3, n2, n1, n0))"
    by simp
  have N: "row_N row = unat (word_of_int (int (row_sum row) - 1) :: 64 word)"
    by (simp only: row_N_def r prod.case s)
  show ?thesis
  proof (cases "row_sum row = 0")
    case True
    then show ?thesis using N by (simp add: unsigned_minus_1_eq_mask mask_eq_exp_minus_1)
  next
    case False
    then have e: "int (row_sum row) - 1 = int (row_sum row - 1)" by simp
    have b: "row_sum row - 1 < 2 ^ 64" using row_sum_bound[of row] by simp
    have "row_N row = unat (word_of_nat (row_sum row - 1) :: 64 word)"
      by (simp only: N e of_int_of_nat_eq)
    moreover have "unat (word_of_nat (row_sum row - 1) :: 64 word) = row_sum row - 1"
      by (rule of_nat_inverse[OF refl]) (use b in simp)
    ultimately show ?thesis
      using False by simp
  qed
qed

lemma collect_ok:
  "(\<forall>r \<in> set rs. \<exists>x. r = Inr x) \<Longrightarrow> \<exists>ws. collect rs = Inr ws"
  by (induction rs) (auto split: sum.splits)

lemma loop_body_zero_row:
  "loop_body lk add N (0, 0, 0, 0, 0) p = Inr \<lparr>gpr = (0, 0, 0, 0, 0), pp = p, calls = [], drops = []\<rparr>"
  by (simp add: body_defs)

lemma row_sum_zero: "row_sum row = 0 \<longleftrightarrow> row = (0, 0, 0, 0, 0)"
  by (cases row) (auto simp: unat_eq_0)

lemma loop_body_drop_sum:
  assumes "loop_body lk add N row p = Inr s" "row_sum row \<noteq> 0"
  shows "Suc (row_sum (gpr s)) = row_sum row"
proof -
  obtain n4 n3 n2 n1 n0 where r: "row = (n4, n3, n2, n1, n0)" by (cases row) auto
  show ?thesis
  proof (cases "lk N")
    case (Inr q)
    show ?thesis
      using loop_body_effect[of lk N q add n4 n3 n2 n1 n0 p] Inr assms r
        u16_dec[of n4] u16_dec[of n3] u16_dec[of n2] u16_dec[of n1] u16_dec[of n0]
      by (auto simp: unat_eq_0 word_greater_zero_iff split: if_splits)
  next
    case (Inl e)
    then show ?thesis
      using assms r u16_dec[of n0]
      by (auto simp: body_defs unat_eq_0 word_greater_zero_iff split: if_splits)
  qed
qed


lemma rec_loop_safe:
  assumes "\<And>i. i < L \<Longrightarrow> \<exists>q. lk i = Inr q"
  shows "safe L N row \<Longrightarrow> \<exists>ws. rec_loop lk add N row p = Inr ws"
  using assms
proof (induction lk add N row p rule: rec_loop.induct)
  case (1 lk add N row p)
  note IHc = 1(1) and IHl = 1(2) and sf = 1(3) and lk = 1(4)
  have L0: "0 < L" using sf by (auto simp: safe_def)
  show ?case
  proof (cases "0 < N")
    case False
    obtain q where "lk 0 = Inr q" using lk[OF L0] by blast
    then show ?thesis
      using False by (subst rec_loop.simps) (simp split: prod.splits)
  next
    case True
    have "\<exists>s. loop_body lk add N row p = Inr s"
    proof (cases "row_sum row = 0")
      case True
      then show ?thesis using loop_body_zero_row[of lk add N p] by (auto simp: row_sum_zero)
    next
      case False
      then have "N < L" using sf by (simp add: safe_def)
      then obtain q where q: "lk N = Inr q" using lk by blast
      obtain n4 n3 n2 n1 n0 where r: "row = (n4, n3, n2, n1, n0)" by (cases row) auto
      show ?thesis
        using loop_body_effect[of lk N q add n4 n3 n2 n1 n0 p] q r by blast
    qed
    then obtain s where s: "loop_body lk add N row p = Inr s" by blast
    have sh: "shrinks (row_sum row) s" by (rule loop_body_shrinks[OF s])
    have kids: "\<exists>ws. rec_loop lk add (row_N (fst c)) (fst c) (snd c) = Inr ws"
      if c: "c \<in> set (calls s)" for c
    proof -
      have lt: "row_sum (fst c) < row_sum row" using sh c by (simp add: shrinks_def)
      then have rs: "row_sum row = Suc N" "N < L" using sf by (auto simp: safe_def)
      have "safe L (row_N (fst c)) (fst c)"
        using lt rs L0 by (auto simp: safe_def row_N_eq)
      then show ?thesis using IHc[OF True s c _ lk] by blast
    qed
    then have "\<exists>ws. collect (map (\<lambda>c. rec_loop lk add (row_N (fst c)) (fst c) (snd c)) (calls s)) = Inr ws"
      by (intro collect_ok) auto
    then obtain ws where ws: "collect (map (\<lambda>c. rec_loop lk add (row_N (fst c)) (fst c) (snd c)) (calls s)) = Inr ws"
      by blast
    have "safe L (N - 1) (gpr s)"
    proof (cases "row_sum row = 0")
      case True
      then show ?thesis
        using s loop_body_zero_row[of lk add N p] L0 by (auto simp: row_sum_zero safe_def)
    next
      case False
      then show ?thesis
        using loop_body_drop_sum[OF s False] sf True by (auto simp: safe_def)
    qed
    then obtain ws' where ws': "rec_loop lk add (N - 1) (gpr s) (pp s) = Inr ws'"
      using IHl[OF True s ws _ lk] by blast
    show ?thesis
      using True s ws ws' by (subst rec_loop.simps) simp
  qed
qed

section \<open>Table bounds\<close>

lemma generateM_loop_eq: "generateM_loop l m v = v @ map word_of_int [m..l]"
proof (induction l m v rule: generateM_loop.induct)
  case (1 l m v)
  show ?case
  proof (cases "m \<le> l")
    case True
    then show ?thesis using 1 by (subst generateM_loop.simps) (simp add: upto_rec1[of m l])
  next
    case False
    then show ?thesis by (subst generateM_loop.simps) simp
  qed
qed

lemma generateM_eq: "generateM l = map word_of_int [- l..l]"
  by (simp add: generateM_def generateM_loop_eq)

lemma generateM_length: "0 \<le> l \<Longrightarrow> length (generateM l) = nat (2 * l + 1)"
  by (simp add: generateM_eq)

lemma SO3_q_in_range: "i < length m \<Longrightarrow> \<exists>q. SO3_q m i = Inr q"
  by (simp add: SO3_q_def vec_at_def then_do_def)

lemma U3_q_in_range:
  "i < length vz \<Longrightarrow> length vz = length vx \<Longrightarrow> length vx = length vy \<Longrightarrow>
   \<exists>q. U3_q (vz, vx, vy) i = Inr q"
  by (simp add: U3_q_def vec_at_def then_do_def)

lemma SO3_rec_safe:
  assumes "row_sum row \<le> length m" "0 < length m"
  shows "\<exists>ws. generateSO3WeightsRec m row p = Inr ws"
proof -
  have "safe (length m) (row_N row) row"
    using assms by (auto simp: safe_def row_N_eq)
  then show ?thesis
    unfolding generateSO3WeightsRec_def
    by (rule rec_loop_safe[rotated]) (rule SO3_q_in_range)
qed

lemma U3_rec_safe:
  assumes "row_sum row \<le> length vz" "0 < length vz" "length vz = length vx" "length vx = length vy"
  shows "\<exists>ws. generateU3WeightsRec (vz, vx, vy) row p = Inr ws"
proof -
  have "safe (length vz) (row_N row) row"
    using assms by (auto simp: safe_def row_N_eq)
  then show ?thesis
    unfolding generateU3WeightsRec_def
    by (rule rec_loop_safe[rotated]) (rule U3_q_in_range[OF _ assms(3,4)])
qed

text \<open>
  C10. A lookup past the end of a table is the error \<open>OutOfRange\<close>, and the error of any
  lookup is the result of the recursion. For a table built by \<^verbatim>\<open>generateM(l)\<close>, \<open>l \<ge> 0\<close>
  (its length is \<open>2l+1\<close>), and every top row whose components sum to \<open>2l+1\<close>, the
  recursion returns its weights and no error: every index it used, those of the loop
  as \<open>N\<close> is decremented and the index 0 of the base case, was inside the table. The
  same for \<^verbatim>\<open>generateXYZ(n)\<close>, \<open>n \<ge> 0\<close>, and rows summing to \<open>(n+1)(n+2)/2\<close>. The recursion is
  a total function: its termination is proved above, on all rows.
\<close>

theorem recursion_stays_in_table:
  "(0 \<le> l \<and> row_sum row = nat (2 * l + 1)
      \<longrightarrow> length (generateM l) = nat (2 * l + 1)
        \<and> (\<exists>ws. generateSO3WeightsRec (generateM l) row p = Inr ws))
   \<and> (0 \<le> n \<and> row_sum row' = nat ((n + 1) * (n + 2) div 2)
      \<longrightarrow> (\<exists>ws. generateU3WeightsRec (generateXYZ n) row' p' = Inr ws))"
proof (intro conjI impI)
  assume a: "0 \<le> l \<and> row_sum row = nat (2 * l + 1)"
  then show "length (generateM l) = nat (2 * l + 1)"
    by (simp add: generateM_length)
  show "\<exists>ws. generateSO3WeightsRec (generateM l) row p = Inr ws"
    using a by (intro SO3_rec_safe) (simp_all add: generateM_length)
next
  assume a: "0 \<le> n \<and> row_sum row' = nat ((n + 1) * (n + 2) div 2)"
  obtain vz vx vy where g: "generateXYZ n = (vz, vx, vy)"
    by (cases "generateXYZ n") auto
  have len: "length vz = length vx" "length vx = length vy"
    using xyz_outer_lengths[of 0 "[]" "[]" "[]" n] g by (auto simp: generateXYZ_def)
  have "length (zip vz (zip vx vy)) = nat ((n + 1) * (n + 2) div 2)"
    using generateXYZ_triples[of n] g a spec_xyz_order_length[of n] by (simp add: xyz_triples_def)
  then have lz: "length vz = nat ((n + 1) * (n + 2) div 2)"
    using len by simp
  have "1 * 2 \<le> (n + 1) * (n + 2)"
    by (intro mult_mono) (use a in auto)
  then have "0 < (n + 1) * (n + 2) div 2"
    by (simp add: pos_imp_zdiv_pos_iff)
  then have "0 < length vz" using lz by simp
  then show "\<exists>ws. generateU3WeightsRec (generateXYZ n) row' p' = Inr ws"
    using a lz len unfolding g by (intro U3_rec_safe) simp_all
qed

section \<open>Errors and validation\<close>

theorem recursion_stays_in_table_witness:
  "(0::int) \<le> 1 \<and> row_sum (0, 0, 0, 3, 0) = nat (2 * 1 + 1)
   \<and> length (generateM 1) = 3
   \<and> (\<exists>ws. generateSO3WeightsRec (generateM 1) (0, 0, 0, 3, 0) 0 = Inr ws)
   \<and> row_sum (1, 1, 0, 0, 1) = nat ((1 + 1) * (1 + 2) div 2)
   \<and> (\<exists>ws. generateU3WeightsRec (generateXYZ 1) (1, 1, 0, 0, 1) (0, 0, 0) = Inr ws)"
  using recursion_stays_in_table[of 1 "(0, 0, 0, 3, 0)" 0 1 "(1, 1, 0, 0, 1)" "(0, 0, 0)"]
  by simp

lemma blk_errors:
  assumes "\<forall>i e. lk i = Inl e \<longrightarrow> e = OutOfRange"
  shows "blk4 lk add N s = Inl e \<Longrightarrow> e = OutOfRange"
    and "blk3 lk add N s = Inl e \<Longrightarrow> e = OutOfRange"
    and "blk2 lk add N s = Inl e \<Longrightarrow> e = OutOfRange"
    and "blk1 lk add N s = Inl e \<Longrightarrow> e = OutOfRange"
    and "blk0 s = Inl e \<Longrightarrow> e = OutOfRange"
  using assms
  by (auto simp: blk4_def blk3_def blk2_def blk1_def blk0_def split: prod.splits if_splits sum.splits)

lemma then_do_Inl: "then_do x f = Inl e \<longleftrightarrow> x = Inl e \<or> (\<exists>v. x = Inr v \<and> f v = Inl e)"
  by (cases x) (auto simp: then_do_def)

lemma loop_body_errors:
  assumes "\<forall>i e. lk i = Inl e \<longrightarrow> e = OutOfRange" "loop_body lk add N row p = Inl e"
  shows "e = OutOfRange"
  using assms(2) blk_errors[OF assms(1)]
  unfolding loop_body_def then_do_Inl by metis

lemma collect_Inl: "collect rs = Inl e \<Longrightarrow> Inl e \<in> set rs"
  by (induction rs) (auto split: sum.splits)

lemma rec_loop_errors:
  assumes "\<forall>i e. lk i = Inl e \<longrightarrow> e = OutOfRange"
  shows "rec_loop lk add N row p = Inl e \<Longrightarrow> e = OutOfRange"
  using assms
proof (induction lk add N row p arbitrary: e rule: rec_loop.induct)
  case (1 lk add N row p)
  note IHc = 1(1) and IHl = 1(2) and res = 1(3) and lk = 1(4)
  show ?case
  proof (cases "0 < N")
    case False
    then show ?thesis
      using res lk by (subst (asm) rec_loop.simps) (auto split: prod.splits sum.splits)
  next
    case True
    show ?thesis
    proof (cases "loop_body lk add N row p")
      case (Inl e')
      have "e' = OutOfRange" using loop_body_errors[OF lk Inl] .
      moreover have "e = e'"
        using res True Inl by (subst (asm) rec_loop.simps) simp
      ultimately show ?thesis by simp
    next
      case (Inr s)
      show ?thesis
      proof (cases "collect (map (\<lambda>c. rec_loop lk add (row_N (fst c)) (fst c) (snd c)) (calls s))")
        case (Inl e')
        then obtain c where c: "c \<in> set (calls s)"
            "rec_loop lk add (row_N (fst c)) (fst c) (snd c) = Inl e'"
          using collect_Inl[OF Inl] by auto
        have "e' = OutOfRange" using IHc[OF True Inr c(1) c(2) lk] .
        moreover have "e = e'"
          using res True Inr Inl by (subst (asm) rec_loop.simps) simp
        ultimately show ?thesis by simp
      next
        case ws: (Inr ws)
        then have "rec_loop lk add (N - 1) (gpr s) (pp s) = Inl e"
          using res True Inr by (subst (asm) rec_loop.simps) (simp split: sum.splits)
        then show ?thesis using IHl[OF True Inr ws _ lk] by blast
      qed
    qed
  qed
qed

lemma rec_loop_emits:
  "rec_loop lk add N row p = Inr ws \<Longrightarrow> ws \<noteq> []"
proof (induction lk add N row p arbitrary: ws rule: rec_loop.induct)
  case (1 lk add N row p)
  show ?case
    using 1(3) by (subst (asm) rec_loop.simps) (auto split: if_splits prod.splits sum.splits dest: 1(2))
qed

lemma dom_emit: "dom (emit M k) = insert k (dom M)"
  by (simp add: emit_def)

lemma dom_foldl_emit: "dom (foldl emit M ws) = dom M \<union> set ws"
  by (induction ws arbitrary: M) (auto simp: dom_emit)

lemma SO3_q_errors: "SO3_q m i = Inl e \<Longrightarrow> e = OutOfRange"
  by (auto simp: SO3_q_def vec_at_def then_do_def split: if_splits)

lemma U3_q_errors: "U3_q xyz i = Inl e \<Longrightarrow> e = OutOfRange"
  by (auto simp: U3_q_def vec_at_def then_do_def split: if_splits prod.splits)

lemma generateSO3Weights_errors: "generateSO3Weights m mult row = Inl e \<Longrightarrow> e = OutOfRange"
  using rec_loop_errors[of "SO3_q m" SO3_add "row_N row" row 0 e] SO3_q_errors[of m]
  by (auto simp: generateSO3Weights_def generateSO3WeightsRec_def then_do_Inl)

lemma generateU3Weights_errors: "generateU3Weights xyz mult row = Inl e \<Longrightarrow> e = OutOfRange"
  using rec_loop_errors[of "U3_q xyz" U3_add "row_N row" row "(0, 0, 0)" e] U3_q_errors[of xyz]
  by (auto simp: generateU3Weights_def generateU3WeightsRec_def then_do_Inl)

lemma sum_loop_errors: "sum_loop mult ws acc = Inl e \<Longrightarrow> e = AssertionFailed"
  by (induction ws arbitrary: acc)
     (auto simp: SO3_getLevelDimensionality_def split: sum.splits if_splits option.splits)

lemma generateSO3Weights_fills:
  assumes "0 < row_sum row" "row_sum row \<le> length m"
  shows "\<exists>M. generateSO3Weights m mult row = Inr M \<and> M \<noteq> Map.empty"
proof -
  have "0 < length m" using assms by linarith
  then obtain ws where ws: "generateSO3WeightsRec m row 0 = Inr ws"
    using SO3_rec_safe[OF assms(2), of 0] by blast
  then have "ws \<noteq> []"
    using rec_loop_emits[of "SO3_q m" SO3_add "row_N row" row 0 ws]
    by (simp add: generateSO3WeightsRec_def)
  then have "dom (foldl emit Map.empty ws) \<noteq> {}"
    by (simp add: dom_foldl_emit)
  then have "foldl emit Map.empty ws \<noteq> Map.empty"
    by (metis dom_empty)
  then show ?thesis
    using ws by (simp add: generateSO3Weights_def then_do_def)
qed

lemma generateU3Weights_fills:
  assumes "0 < row_sum row" "row_sum row \<le> length vz"
    "length vz = length vx" "length vx = length vy"
  shows "\<exists>M. generateU3Weights (vz, vx, vy) mult row = Inr M \<and> M \<noteq> Map.empty"
proof -
  have "0 < length vz" using assms by linarith
  then obtain ws where ws: "generateU3WeightsRec (vz, vx, vy) row (0, 0, 0) = Inr ws"
    using U3_rec_safe[OF assms(2) _ assms(3,4), of "(0, 0, 0)"] by blast
  then have "ws \<noteq> []"
    using rec_loop_emits[of "U3_q (vz, vx, vy)" U3_add "row_N row" row "(0, 0, 0)" ws]
    by (simp add: generateU3WeightsRec_def)
  then have "dom (foldl emit Map.empty ws) \<noteq> {}"
    by (simp add: dom_foldl_emit)
  then have "foldl emit Map.empty ws \<noteq> Map.empty"
    by (metis dom_empty)
  then show ?thesis
    using ws by (simp add: generateU3Weights_def then_do_def)
qed

text \<open>
  C5 (as amended). The enumerate operations check nothing: neither
  \<^verbatim>\<open>generateSO3Weights\<close> nor \<^verbatim>\<open>generateU3Weights\<close> ever reports an invalid argument,
  whatever the row and the table; they discard the previous table (the result does not
  depend on it) and run the recursion, so with either of them a row whose total is
  positive and at most the table length (for U(3): the common length of the three
  vectors) always leaves a non-empty table. The total is checked by the test driver
  alone: \<^verbatim>\<open>main\<close> throws \<^verbatim>\<open>invalid_argument\<close> exactly when
  \<open>n4+n3+n2+n1+n0 \<noteq> 2l+1\<close>, before it creates the enumerator.
\<close>

theorem enumerate_does_not_validate:
  "generateSO3Weights m mult row \<noteq> Inl InvalidArgument
   \<and> generateU3Weights xyz mult3 row \<noteq> Inl InvalidArgument
   \<and> generateSO3Weights m mult row = generateSO3Weights m Map.empty row
   \<and> generateU3Weights xyz mult3 row = generateU3Weights xyz Map.empty row
   \<and> (0 < row_sum row \<and> row_sum row \<le> length m
        \<longrightarrow> (\<exists>M. generateSO3Weights m mult row = Inr M \<and> M \<noteq> Map.empty))
   \<and> (0 < row_sum row \<and> row_sum row \<le> length vz
          \<and> length vz = length vx \<and> length vx = length vy
        \<longrightarrow> (\<exists>M. generateU3Weights (vz, vx, vy) mult3 row = Inr M \<and> M \<noteq> Map.empty))
   \<and> (main l n4 n3 n2 n1 n0 = Inl InvalidArgument
        \<longleftrightarrow> word_of_int (uint n4 + uint n3 + uint n2 + uint n1 + uint n0) \<noteq> 2 * l + 1)"
proof -
  have a: "generateSO3Weights m mult row \<noteq> Inl InvalidArgument"
    using generateSO3Weights_errors[of m mult row InvalidArgument] by auto
  have b: "generateU3Weights xyz mult3 row \<noteq> Inl InvalidArgument"
    using generateU3Weights_errors[of xyz mult3 row InvalidArgument] by auto
  have c: "generateSO3Weights m mult row = generateSO3Weights m Map.empty row"
    "generateU3Weights xyz mult3 row = generateU3Weights xyz Map.empty row"
    by (simp_all add: generateSO3Weights_def generateU3Weights_def)
  have d: "0 < row_sum row \<and> row_sum row \<le> length m
        \<longrightarrow> (\<exists>M. generateSO3Weights m mult row = Inr M \<and> M \<noteq> Map.empty)"
    using generateSO3Weights_fills by blast
  have d3: "0 < row_sum row \<and> row_sum row \<le> length vz
          \<and> length vz = length vx \<and> length vx = length vy
        \<longrightarrow> (\<exists>M. generateU3Weights (vz, vx, vy) mult3 row = Inr M \<and> M \<noteq> Map.empty)"
    using generateU3Weights_fills by blast
  have e: "main l n4 n3 n2 n1 n0 = Inl InvalidArgument
        \<longleftrightarrow> word_of_int (uint n4 + uint n3 + uint n2 + uint n1 + uint n0) \<noteq> 2 * l + 1"
    using generateSO3Weights_errors sum_loop_errors
    by (fastforce simp: main_def then_do_Inl)
  show ?thesis using a b c d d3 e by blast
qed

text \<open>
  C5 as stated fails: with the table of \<open>l = 1\<close> (length 3) and the row \<open>(0, 0, 0, 1, 0)\<close>
  of total 1, \<^verbatim>\<open>generateSO3Weights\<close> reports nothing and replaces the previous table
  \<open>[0 \<mapsto> 1]\<close> by \<open>[-1 \<mapsto> 1]\<close>.
\<close>

theorem enumerate_does_not_validate_counterexample:
  "row_sum (0, 0, 0, 1, 0) \<noteq> length (generateM 1)
   \<and> generateSO3Weights (generateM 1) [0 \<mapsto> 1] (0, 0, 0, 1, 0) = Inr [- 1 \<mapsto> 1]"
  by (simp add: generateSO3Weights_def generateSO3WeightsRec_def generateM_def row_N_def
      rec_loop.simps SO3_q_def SO3_add_def vec_at_def emit_def find_or_0_def then_do_def
      generateM_loop.simps)

theorem enumerate_does_not_validate_witness:
  "0 < row_sum (0, 0, 0, 2, 0) \<and> row_sum (0, 0, 0, 2, 0) \<le> length (generateM 1)
   \<and> (\<exists>M. generateSO3Weights (generateM 1) [0 \<mapsto> 1] (0, 0, 0, 2, 0) = Inr M \<and> M \<noteq> Map.empty)
   \<and> row_sum (0, 0, 0, 2, 0) \<le> length [1, 0, 0 :: 32 word]
   \<and> (\<exists>M. generateU3Weights ([1, 0, 0], [0, 1, 0], [0, 0, 1]) Map.empty (0, 0, 0, 2, 0) = Inr M
          \<and> M \<noteq> Map.empty)
   \<and> main 1 0 0 0 2 0 = Inl InvalidArgument"
proof -
  note t = enumerate_does_not_validate[of "generateM 1" "[0 \<mapsto> 1]" "(0, 0, 0, 2, 0)"
      "generateXYZ 0" Map.empty "[1, 0, 0]" "[0, 1, 0]" "[0, 0, 1]" 1 0 0 0 2 0]
  have h: "0 < row_sum (0, 0, 0, 2, 0) \<and> row_sum (0, 0, 0, 2, 0) \<le> length (generateM 1)"
    by (simp add: generateM_eq)
  have h3: "row_sum (0, 0, 0, 2, 0) \<le> length [1, 0, 0 :: 32 word]
      \<and> length [1, 0, 0 :: 32 word] = length [0, 1, 0 :: 32 word]
      \<and> length [0, 1, 0 :: 32 word] = length [0, 0, 1 :: 32 word]"
    by simp
  have m: "main 1 0 0 0 2 0 = Inl InvalidArgument"
    using t by simp
  have e: "\<exists>M. generateSO3Weights (generateM 1) [0 \<mapsto> 1] (0, 0, 0, 2, 0) = Inr M \<and> M \<noteq> Map.empty"
    using t h by blast
  have e3: "\<exists>M. generateU3Weights ([1, 0, 0], [0, 1, 0], [0, 0, 1]) Map.empty (0, 0, 0, 2, 0) = Inr M
          \<and> M \<noteq> Map.empty"
    using t h h3 by blast
  show ?thesis using h h3 m e e3 by blast
qed

section \<open>Level dimensionality and the scenario of three ones\<close>

lemmas eval_defs = generateSO3Weights_def generateSO3WeightsRec_def generateM_def row_N_def
  rec_loop.simps loop_body_def then_do_def blk4_def blk3_def blk2_def blk1_def blk0_def
  drop_in_place_def spawn_def children4_def children3_def children2_def children1_def
  SO3_q_def SO3_add_def vec_at_def emit_def find_or_0_def

text \<open>
  C7 (as amended). For \<open>l = 1\<close> the table is \<open>(-1, 0, 1)\<close>, and the row
  \<open>n4 = 0, n3 = 0, n2 = 0, n1 = 3, n0 = 0\<close> yields the table with the single key 0, of
  multiplicity 1: the three in-place drops add \<open>1 + 0\<close> and the base case adds \<open>-1\<close>.
\<close>

theorem SO3_l1_three_ones:
  "map sint (generateM 1) = [- 1, 0, 1]
   \<and> generateSO3Weights (generateM 1) mult (0, 0, 0, 3, 0) = Inr [0 \<mapsto> 1]"
  by (simp add: eval_defs generateM_loop.simps)

text \<open>C7 as stated fails: the result is not the table with keys \<open>-3, -1, 1, 3\<close>.\<close>

theorem SO3_l1_three_ones_counterexample:
  "generateSO3Weights (generateM 1) Map.empty (0, 0, 0, 3, 0)
     \<noteq> Inr [- 3 \<mapsto> 1, - 1 \<mapsto> 1, 1 \<mapsto> 1, 3 \<mapsto> 1]"
proof -
  have run: "generateSO3Weights (generateM 1) Map.empty (0, 0, 0, 3, 0) = Inr [0 \<mapsto> 1]"
    by (simp add: eval_defs generateM_loop.simps)
  have "([- 3 \<mapsto> 1, - 1 \<mapsto> 1, 1 \<mapsto> 1, 3 \<mapsto> 1] :: SO3MultMap) 0 = None"
    by simp
  moreover have "([0 \<mapsto> 1] :: SO3MultMap) 0 = Some 1"
    by simp
  ultimately have "([0 \<mapsto> 1] :: SO3MultMap) \<noteq> [- 3 \<mapsto> 1, - 1 \<mapsto> 1, 1 \<mapsto> 1, 3 \<mapsto> 1]"
    by (metis option.distinct(1))
  then show ?thesis
    using run by simp
qed

text \<open>
  C2 (as amended). \<^verbatim>\<open>UNtoSO3::getLevelDimensionality(l)\<close>, on any table: 0 when
  \<open>l < 0\<close>; when \<open>l \<ge> 0\<close> is a key, \<open>M[l] - M[l+1]\<close> in \<^verbatim>\<open>uint32_t\<close>, an absent \<open>l+1\<close>
  counting as 0; when \<open>l \<ge> 0\<close> is not a key, the assertion fails.
\<close>

theorem SO3_getLevelDimensionality_cases:
  "SO3_getLevelDimensionality mult l =
     (if l < 0 then Inr 0
      else if l \<in> dom mult then Inr (find_or_0 mult l - find_or_0 mult (l + 1))
      else Inl AssertionFailed)"
  by (auto simp: SO3_getLevelDimensionality_def find_or_0_def split: option.splits)

theorem SO3_getLevelDimensionality_cases_witness:
  "SO3_getLevelDimensionality [0 \<mapsto> 3, 1 \<mapsto> 1] 0 = Inr 2
   \<and> SO3_getLevelDimensionality [0 \<mapsto> 3, 1 \<mapsto> 1] 1 = Inr 1
   \<and> SO3_getLevelDimensionality [0 \<mapsto> 3, 1 \<mapsto> 1] (- 1) = Inr 0
   \<and> SO3_getLevelDimensionality [0 \<mapsto> 3, 1 \<mapsto> 1] 2 = Inl AssertionFailed"
  using SO3_getLevelDimensionality_cases[of "[0 \<mapsto> 3, 1 \<mapsto> 1]" 0]
    SO3_getLevelDimensionality_cases[of "[0 \<mapsto> 3, 1 \<mapsto> 1]" 1]
    SO3_getLevelDimensionality_cases[of "[0 \<mapsto> 3, 1 \<mapsto> 1]" "- 1"]
    SO3_getLevelDimensionality_cases[of "[0 \<mapsto> 3, 1 \<mapsto> 1]" 2]
  by (simp add: find_or_0_def)

text \<open>
  C2 as stated fails: on the table of the completed enumeration for \<open>l = 0\<close>, row
  \<open>(0, 0, 0, 0, 1)\<close>, the query 5 (absent) fails the assertion and returns no value.
\<close>

theorem SO3_getLevelDimensionality_absent_counterexample:
  "generateSO3Weights (generateM 0) Map.empty (0, 0, 0, 0, 1) = Inr [0 \<mapsto> 1]
   \<and> SO3_getLevelDimensionality [0 \<mapsto> 1] 5 = Inl AssertionFailed
   \<and> SO3_getLevelDimensionality [0 \<mapsto> 1] 5
        \<noteq> Inr (find_or_0 [0 \<mapsto> 1] 5 - find_or_0 [0 \<mapsto> 1] (5 + 1))"
  by (simp add: eval_defs generateM_loop.simps SO3_getLevelDimensionality_def)

lemmas eval_defs3 = generateU3Weights_def generateU3WeightsRec_def generateXYZ_def row_N_def
  rec_loop.simps loop_body_def then_do_def blk4_def blk3_def blk2_def blk1_def blk0_def
  drop_in_place_def spawn_def children4_def children3_def children2_def children1_def
  U3_q_def U3_add_def vec_at_def emit_def find_or_0_def xyz_outer.simps xyz_inner.simps

text \<open>
  C3 (as amended). \<^verbatim>\<open>UNtoU3::getLevelDimensionality\<close>, on any table and any labels
  \<open>(f1, f2, f3)\<close> (\<^verbatim>\<open>uint32_t\<close>, so \<open>f3 - 2\<close> and the like wrap around): 0 when \<open>f1 < f2\<close> or
  \<open>f2 < f3\<close>; otherwise, when \<open>(f1, f2, f3)\<close> is a key, the six-term sum, the five shifted
  keys counting as 0 when absent; otherwise, when \<open>(f1, f2, f3)\<close> is not a key, the
  assertion fails.
\<close>

theorem U3_getLevelDimensionality_cases:
  "U3_getLevelDimensionality mult (f1, f2, f3) =
     (if f1 < f2 \<or> f2 < f3 then Inr 0
      else if (f1, f2, f3) \<in> dom mult
      then Inr (find_or_0 mult (f1, f2, f3)
                + find_or_0 mult (f1 + 1, f2 + 1, f3 - 2)
                + find_or_0 mult (f1 + 2, f2 - 1, f3 - 1)
                - find_or_0 mult (f1 + 2, f2, f3 - 2)
                - find_or_0 mult (f1 + 1, f2 - 1, f3)
                - find_or_0 mult (f1, f2 + 1, f3 - 1))
      else Inl AssertionFailed)"
  by (auto simp: U3_getLevelDimensionality_def find_or_0_def split: option.splits)

theorem U3_getLevelDimensionality_cases_witness:
  "U3_getLevelDimensionality [(2, 1, 0) \<mapsto> 2, (2, 2, 4294967295) \<mapsto> 1] (2, 1, 0) = Inr 1
   \<and> U3_getLevelDimensionality [(2, 1, 0) \<mapsto> 2] (1, 2, 0) = Inr 0
   \<and> U3_getLevelDimensionality [(2, 1, 0) \<mapsto> 2] (3, 0, 0) = Inl AssertionFailed"
  using U3_getLevelDimensionality_cases[of "[(2, 1, 0) \<mapsto> 2, (2, 2, 4294967295) \<mapsto> 1]" 2 1 0]
    U3_getLevelDimensionality_cases[of "[(2, 1, 0) \<mapsto> 2]" 1 2 0]
    U3_getLevelDimensionality_cases[of "[(2, 1, 0) \<mapsto> 2]" 3 0 0]
  by (simp add: find_or_0_def)

text \<open>
  C3 as stated fails: on the table of the completed enumeration for shell \<open>n = 0\<close>, row
  \<open>(0, 0, 0, 0, 1)\<close>, the query \<open>(1, 0, 0)\<close> (absent) fails the assertion.
\<close>

theorem U3_getLevelDimensionality_absent_counterexample:
  "generateU3Weights (generateXYZ 0) Map.empty (0, 0, 0, 0, 1) = Inr [(0, 0, 0) \<mapsto> 1]
   \<and> U3_getLevelDimensionality [(0, 0, 0) \<mapsto> 1] (1, 0, 0) = Inl AssertionFailed
   \<and> U3_getLevelDimensionality [(0, 0, 0) \<mapsto> 1] (1, 0, 0)
        \<noteq> Inr (find_or_0 [(0, 0, 0) \<mapsto> 1] (1, 0, 0)
                + find_or_0 [(0, 0, 0) \<mapsto> 1] (1 + 1, 0 + 1, 0 - 2)
                + find_or_0 [(0, 0, 0) \<mapsto> 1] (1 + 2, 0 - 1, 0 - 1)
                - find_or_0 [(0, 0, 0) \<mapsto> 1] (1 + 2, 0, 0 - 2)
                - find_or_0 [(0, 0, 0) \<mapsto> 1] (1 + 1, 0 - 1, 0)
                - find_or_0 [(0, 0, 0) \<mapsto> 1] (1, 0 + 1, 0 - 1))"
  by (simp add: eval_defs3 U3_getLevelDimensionality_def)

section \<open>The dimension sum of the driver\<close>

lemma main_not_invalid:
  assumes "word_of_int (uint n4 + uint n3 + uint n2 + uint n1 + uint n0) = 2 * l + 1"
  shows "main l n4 n3 n2 n1 n0 \<noteq> Inl InvalidArgument"
  using assms generateSO3Weights_errors sum_loop_errors
  by (fastforce simp: main_def then_do_Inl)

text \<open>
  The literal input \<open>l = 10, n4 = 5, n3 = 0, n2 = 0, n1 = 6, n0 = 1\<close> has 12 entries, not
  \<open>2l + 1 = 21\<close>: \<^verbatim>\<open>main\<close> throws \<^verbatim>\<open>invalid_argument\<close> on it.
\<close>

lemma main_literal_input_rejected: "main 10 5 0 0 6 1 = Inl InvalidArgument"
  by (simp add: main_def)

text \<open>
  The table of \<open>l = 128\<close>: \<^verbatim>\<open>m_\<close> holds \<^verbatim>\<open>int8_t\<close>, so the last entry, 128, is stored as
  \<open>-128\<close>. On the row of 257 ones the 256 in-place drops and the base case add up all
  257 entries, \<open>-256\<close> instead of 0.
\<close>

lemma enumerate_l_128:
  "generateSO3Weights (generateM 128) Map.empty (0, 0, 0, 257, 0) = Inr [- 256 \<mapsto> 1]"
  by (simp add: eval_defs generateM_loop.simps)

lemma main_l_128: "main 128 0 0 0 257 0 = Inr 0"
  by (simp add: main_def enumerate_l_128 then_do_def SO3_getLevelDimensionality_def)

lemma foldl_unit:
  "(\<And>r x. x \<in> set xs \<Longrightarrow> f r x = r) \<Longrightarrow> foldl f r xs = r"
  by (induction xs arbitrary: r) simp_all

lemma UN_dim_ones: "UN_dim (replicate n 1) = 1"
  unfolding UN_dim_def
  by (rule foldl_unit, rule foldl_unit) auto

lemma irrep_of_ones: "irrep_of (0, 0, 0, 257, 0) = replicate 257 1"
  by (simp add: irrep_of_def)

text \<open>
  C1. The dimension sum law fails on an input that \<^verbatim>\<open>main\<close> accepts: for \<open>l = 128\<close> and
  \<open>n4 = 0, n3 = 0, n2 = 0, n1 = 257, n0 = 0\<close> (\<open>257 = 2l + 1\<close> entries, the one-dimensional
  irrep \<open>[1, ..., 1]\<close> of U(257)) the driver prints the sum 0, while the analytic
  dimension of the irrep, which the sum should equal, is 1.
\<close>

theorem dimension_sum_fails_at_l_128:
  "main 128 0 0 0 257 0 = Inr 0 \<and> UN_dim (irrep_of (0, 0, 0, 257, 0)) = 1"
  using UN_dim_ones[of 257] by (simp add: main_l_128 irrep_of_ones)

end
